theory Spec2Isabelle
  imports Complex_Main
begin

section \<open>The CSV bulk import of task-2-refactor/server.js\<close>

text \<open>
  The development embeds the import endpoint of \<^verbatim>\<open>task-2-refactor/server.js\<close>:
  the validation schema \<^verbatim>\<open>propertySchema\<close>, the row loop \<^verbatim>\<open>processCSVStream\<close>,
  the mock model \<^verbatim>\<open>Property.insertMany\<close> and the handler of
  \<^verbatim>\<open>POST /import-properties\<close>.

  Two libraries the file calls are not part of the repository. Their parts that
  need floating point or a CSV grammar are parameters of the model (the record
  \<open>env\<close> below); the rules of the schema language that \<^verbatim>\<open>propertySchema\<close> uses
  are written out.

  Strings are \<open>string\<close>: a character stands for one UTF-16 code unit below
  \<open>0x100\<close>, so that \<open>length\<close> is JavaScript's \<^verbatim>\<open>.length\<close> on such strings.
\<close>

subsection \<open>Values and records\<close>

text \<open>
  A row object built by the CSV decoder maps a header to the text of a cell. A finite
  double is a rational number; a date is its epoch time in milliseconds.
\<close>

type_synonym raw_record = "string \<rightharpoonup> string"

datatype jsval = JString string | JNumber rat | JDate int

type_synonym obj = "string \<rightharpoonup> jsval"

subsection \<open>The schema language\<close>

text \<open>
  \<^verbatim>\<open>Joi.string().trim().min(1).max(200).required()\<close> is a base type, its rules in the
  order of the calls, and the presence flag.
\<close>

datatype presence = Optional | Required

datatype string_rule = Trim | MinLength nat | MaxLength nat

datatype number_rule = Positive

datatype schema =
    JoiString "string_rule list" presence
  | JoiNumber "number_rule list" presence

text \<open>The error codes these rules can raise, and \<^verbatim>\<open>error.details[0]\<close>.\<close>

datatype joi_code =
    any_required
  | string_base
  | string_empty
  | string_trim
  | string_min nat
  | string_max nat
  | number_base
  | number_unsafe
  | number_positive

record joi_error =
  path :: string
  code :: joi_code

text \<open>
  What the number type's coercion makes of a string: it leaves a string that is not
  a decimal literal as it is, rejects a literal that a double cannot hold exactly, and
  otherwise converts with \<^verbatim>\<open>parseFloat\<close>.
\<close>

datatype coerced = Unconverted | Unsafe | Number rat

definition digit :: "nat \<Rightarrow> char" where
  "digit n = ''0123456789'' ! n"

fun show_nat :: "nat \<Rightarrow> string" where
  "show_nat n = (if n < 10 then [digit n] else show_nat (n div 10) @ [digit (n mod 10)])"

declare show_nat.simps [simp del]

text \<open>The message templates of the library, with the label in double quotes.\<close>

fun template :: "joi_code \<Rightarrow> string" where
  "template any_required = '' is required''"
| "template string_base = '' must be a string''"
| "template string_empty = '' is not allowed to be empty''"
| "template string_trim = '' must not have leading or trailing whitespace''"
| "template (string_min n) = '' length must be at least '' @ show_nat n @ '' characters long''"
| "template (string_max n) =
     '' length must be less than or equal to '' @ show_nat n @ '' characters long''"
| "template number_base = '' must be a number''"
| "template number_unsafe = '' must be a safe number''"
| "template number_positive = '' must be a positive number''"

definition label :: "string \<Rightarrow> string" where
  "label key = [CHR 0x22] @ key @ [CHR 0x22]"

definition details_message :: "joi_error \<Rightarrow> string" where
  "details_message e = label (path e) @ template (code e)"

text \<open>
  \<^verbatim>\<open>String.prototype.trim\<close> removes white space and line terminators from both ends;
  below \<open>0x100\<close> these are TAB, LF, VT, FF, CR, SPACE and NBSP.
\<close>

definition isWhiteSpace :: "char \<Rightarrow> bool" where
  "isWhiteSpace c \<longleftrightarrow>
     c \<in> {CHR 0x09, CHR 0x0A, CHR 0x0B, CHR 0x0C, CHR 0x0D, CHR 0x20, CHR 0xA0}"

definition trim :: "string \<Rightarrow> string" where
  "trim s = rev (dropWhile isWhiteSpace (rev (dropWhile isWhiteSpace s)))"

definition MAX_SAFE_INTEGER :: rat where
  "MAX_SAFE_INTEGER = 9007199254740991"

definition MIN_SAFE_INTEGER :: rat where
  "MIN_SAFE_INTEGER = - 9007199254740991"

text \<open>The rules of a string schema run in the order of their declaration.\<close>

fun string_rules :: "string_rule list \<Rightarrow> string \<Rightarrow> joi_code + string" where
  "string_rules [] v = Inr v"
| "string_rules (Trim # rs) v =
     (if v = trim v then string_rules rs v else Inl string_trim)"
| "string_rules (MinLength n # rs) v =
     (if n \<le> length v then string_rules rs v else Inl (string_min n))"
| "string_rules (MaxLength n # rs) v =
     (if length v \<le> n then string_rules rs v else Inl (string_max n))"

fun number_rules :: "number_rule list \<Rightarrow> rat \<Rightarrow> joi_code + rat" where
  "number_rules [] x = Inr x"
| "number_rules (Positive # rs) x =
     (if 0 < x then number_rules rs x else Inl number_positive)"

text \<open>
  One key of an object schema, on the cell of that key (\<open>None\<close> is \<^verbatim>\<open>undefined\<close>).
  With the default \<^verbatim>\<open>convert: true\<close> the value is coerced first (a string schema with
  the trim rule trims, a number schema converts a string), then presence is checked,
  then the base type (the empty string is not a valid string unless \<^verbatim>\<open>min(0)\<close> is
  declared; a number is a number within the safe range), then the rules.
\<close>

fun validate_child ::
  "(string \<Rightarrow> coerced) \<Rightarrow> schema \<Rightarrow> string option \<Rightarrow> joi_code + jsval option" where
  "validate_child N (JoiString rules Optional) None = Inr None"
| "validate_child N (JoiString rules Required) None = Inl any_required"
| "validate_child N (JoiString rules p) (Some s) =
     (let v = (if Trim \<in> set rules then trim s else s) in
      if v = [] \<and> MinLength 0 \<notin> set rules then Inl string_empty
      else (case string_rules rules v of
              Inl c \<Rightarrow> Inl c
            | Inr v' \<Rightarrow> Inr (Some (JString v'))))"
| "validate_child N (JoiNumber rules Optional) None = Inr None"
| "validate_child N (JoiNumber rules Required) None = Inl any_required"
| "validate_child N (JoiNumber rules p) (Some s) =
     (case N s of
        Unconverted \<Rightarrow> Inl number_base
      | Unsafe \<Rightarrow> Inl number_unsafe
      | Number x \<Rightarrow>
          if x > MAX_SAFE_INTEGER \<or> x < MIN_SAFE_INTEGER then Inl number_unsafe
          else (case number_rules rules x of
                  Inl c \<Rightarrow> Inl c
                | Inr x' \<Rightarrow> Inr (Some (JNumber x'))))"

text \<open>
  An object schema validates its keys in declaration order on a shallow clone of the
  input. With the default \<^verbatim>\<open>abortEarly: true\<close> the first failing key ends the
  validation with that one error. A converted value replaces the cell.
\<close>

fun validate_keys ::
  "(string \<Rightarrow> coerced) \<Rightarrow> (string \<times> schema) list \<Rightarrow> raw_record \<Rightarrow> obj \<Rightarrow> joi_error + obj" where
  "validate_keys N [] raw value = Inr value"
| "validate_keys N ((key, child) # keys) raw value =
     (case validate_child N child (raw key) of
        Inl c \<Rightarrow> Inl \<lparr>path = key, code = c\<rparr>
      | Inr None \<Rightarrow> validate_keys N keys raw (value(key := None))
      | Inr (Some v) \<Rightarrow> validate_keys N keys raw (value(key \<mapsto> v)))"

text \<open>
  \<^verbatim>\<open>schema.validate(data, { stripUnknown: true })\<close>: the keys the schema does not
  declare are deleted from the clone after the declared keys have passed.
\<close>

definition joi_validate ::
  "(string \<Rightarrow> coerced) \<Rightarrow> (string \<times> schema) list \<Rightarrow> raw_record \<Rightarrow> joi_error + obj" where
  "joi_validate N keys raw =
     (case validate_keys N keys raw (map_option JString \<circ> raw) of
        Inl e \<Rightarrow> Inl e
      | Inr value \<Rightarrow> Inr (value |` set (map fst keys)))"

subsection \<open>propertySchema\<close>

definition propertySchema :: "(string \<times> schema) list" where
  "propertySchema =
     [(''title'', JoiString [Trim, MinLength 1, MaxLength 200] Required),
      (''price'', JoiNumber [Positive] Required),
      (''projectId'', JoiString [Trim, MinLength 1] Required)]"

subsection \<open>The validator on a store of objects\<close>

text \<open>
  In \<^verbatim>\<open>processCSVStream\<close> the row object \<^verbatim>\<open>data\<close> is handed to
  \<^verbatim>\<open>propertySchema.validate\<close> and, when it fails, the same object is kept in the row
  error. Whether the validator writes to the objects it can reach is therefore stated on
  a store: objects live at addresses, and a new object gets the next free address.
\<close>

type_synonym addr = nat

record store =
  objects :: "addr \<rightharpoonup> obj"
  next_addr :: addr

text \<open>The row object of a decoded record: every cell is a string.\<close>

definition as_obj :: "raw_record \<Rightarrow> obj" where
  "as_obj raw = map_option JString \<circ> raw"

definition obj_at :: "store \<Rightarrow> addr \<Rightarrow> obj" where
  "obj_at s a = (case objects s a of None \<Rightarrow> Map.empty | Some ob \<Rightarrow> ob)"

definition alloc :: "obj \<Rightarrow> store \<Rightarrow> addr \<times> store" where
  "alloc ob s =
     (next_addr s, s\<lparr>objects := (objects s)(next_addr s \<mapsto> ob), next_addr := Suc (next_addr s)\<rparr>)"

definition set_key :: "addr \<Rightarrow> string \<Rightarrow> jsval option \<Rightarrow> store \<Rightarrow> store" where
  "set_key a key v s = s\<lparr>objects := (objects s)(a \<mapsto> (obj_at s a)(key := v))\<rparr>"

text \<open>
  A key of the schema on a value of any type: a string schema accepts only strings, a
  number schema converts a string and takes a number as it is; a date is neither.
\<close>

fun validate_item ::
  "(string \<Rightarrow> coerced) \<Rightarrow> schema \<Rightarrow> jsval option \<Rightarrow> joi_code + jsval option" where
  "validate_item N child None = validate_child N child None"
| "validate_item N child (Some (JString s)) = validate_child N child (Some s)"
| "validate_item N (JoiString rules p) (Some v) = Inl string_base"
| "validate_item N (JoiNumber rules p) (Some (JNumber x)) =
     (if x > MAX_SAFE_INTEGER \<or> x < MIN_SAFE_INTEGER then Inl number_unsafe
      else (case number_rules rules x of
              Inl c \<Rightarrow> Inl c
            | Inr x' \<Rightarrow> Inr (Some (JNumber x'))))"
| "validate_item N (JoiNumber rules p) (Some (JDate t)) = Inl number_base"

text \<open>
  The object schema clones the object it is given, reads each declared key from the
  clone and writes the converted value back to the clone, stops at the first failing
  key, and with \<^verbatim>\<open>stripUnknown\<close> deletes the undeclared keys of the clone. The result
  is the error or the address of the clone.
\<close>

fun validate_keys_at ::
  "(string \<Rightarrow> coerced) \<Rightarrow> (string \<times> schema) list \<Rightarrow> addr \<Rightarrow> store \<Rightarrow> joi_error option \<times> store" where
  "validate_keys_at N [] c s = (None, s)"
| "validate_keys_at N ((key, child) # keys) c s =
     (case validate_item N child (obj_at s c key) of
        Inl jc \<Rightarrow> (Some \<lparr>path = key, code = jc\<rparr>, s)
      | Inr r \<Rightarrow> validate_keys_at N keys c (set_key c key r s))"

definition strip_unknown :: "(string \<times> schema) list \<Rightarrow> addr \<Rightarrow> store \<Rightarrow> store" where
  "strip_unknown keys c s = s\<lparr>objects := (objects s)(c \<mapsto> obj_at s c |` set (map fst keys))\<rparr>"

definition validate_at ::
  "(string \<Rightarrow> coerced) \<Rightarrow> (string \<times> schema) list \<Rightarrow> addr \<Rightarrow> store \<Rightarrow> (joi_error + addr) \<times> store" where
  "validate_at N keys a s =
     (let (c, s1) = alloc (obj_at s a) s in
      case validate_keys_at N keys c s1 of
        (Some e, s2) \<Rightarrow> (Inl e, s2)
      | (None, s2) \<Rightarrow> (Inr c, strip_unknown keys c s2))"

text \<open>In a well-formed store no object lives at or beyond the next free address.\<close>

definition well_formed :: "store \<Rightarrow> bool" where
  "well_formed s \<longleftrightarrow> (\<forall>b. next_addr s \<le> b \<longrightarrow> objects s b = None)"

subsection \<open>What the handler is given\<close>

text \<open>
  The grammar of the CSV decoder (line ends, separators, quotes), the number coercion of
  the schema library and the clock are the environment: \<open>parseLines\<close> gives the lines
  that the decoder finds in the text, each as its cells, and whether the stream then
  emits \<^verbatim>\<open>end\<close> or \<^verbatim>\<open>error\<close>; \<open>now k\<close> is the \<open>k\<close>-th reading of the clock.
\<close>

datatype stream_end = End | Error string

record env =
  parseLines :: "string \<Rightarrow> string list list \<times> stream_end"
  toNumber :: "string \<Rightarrow> coerced"
  now :: "nat \<Rightarrow> int"

text \<open>
  \<^verbatim>\<open>csv()\<close> is called without options, so the decoder takes the cells of the first line
  as the headers and emits nothing for it. For each later line it emits one
  \<^verbatim>\<open>data\<close> event with the row object that \<^verbatim>\<open>writeRow\<close> builds: the cell at
  \<open>index\<close> is stored under the header at that index, or under \<^verbatim>\<open>_index\<close> when the
  line has more cells than there are headers; a later cell replaces an earlier one of
  the same name.
\<close>

definition column :: "string list \<Rightarrow> nat \<Rightarrow> string" where
  "column headers index =
     (if index < length headers then headers ! index else ''_'' @ show_nat index)"

fun write_cells :: "string list \<Rightarrow> nat \<Rightarrow> string list \<Rightarrow> raw_record \<Rightarrow> raw_record" where
  "write_cells headers index [] row = row"
| "write_cells headers index (cell # cells) row =
     write_cells headers (Suc index) cells (row(column headers index \<mapsto> cell))"

definition writeRow :: "string list \<Rightarrow> string list \<Rightarrow> raw_record" where
  "writeRow headers cells = write_cells headers 0 cells Map.empty"

definition csv :: "env \<Rightarrow> string \<Rightarrow> raw_record list \<times> stream_end" where
  "csv E text =
     (case parseLines E text of
        (ls, ending) \<Rightarrow>
          (case ls of
             [] \<Rightarrow> ([], ending)
           | headers # body \<Rightarrow> (map (writeRow headers) body, ending)))"

text \<open>
  The handler's effects, in order: the lines it logs (the metadata object of a line is
  left out), the buffer it hands to the decoder, and the calls of
  \<^verbatim>\<open>Property.insertMany\<close>.
\<close>

datatype level = info | error_level

datatype effect = Log level string | Decode string | InsertMany "obj list"

record world =
  effects :: "effect list"
  ticks :: nat

definition Date_now :: "env \<Rightarrow> world \<Rightarrow> int \<times> world" where
  "Date_now E w = (now E (ticks w), w\<lparr>ticks := ticks w + 1\<rparr>)"

definition emit :: "effect \<Rightarrow> world \<Rightarrow> world" where
  "emit x w = w\<lparr>effects := effects w @ [x]\<rparr>"

definition logger_info :: "string \<Rightarrow> world \<Rightarrow> world" where
  "logger_info msg w = emit (Log info msg) w"

definition logger_error :: "string \<Rightarrow> world \<Rightarrow> world" where
  "logger_error msg w = emit (Log error_level msg) w"

subsection \<open>processCSVStream\<close>

record row_error =
  row :: nat
  data :: raw_record
  error :: string

record csv_acc =
  results :: "obj list"
  errors :: "row_error list"
  rowIndex :: nat

text \<open>The \<^verbatim>\<open>data\<close> callback.\<close>

definition onData :: "(string \<Rightarrow> coerced) \<Rightarrow> raw_record \<Rightarrow> csv_acc \<Rightarrow> csv_acc" where
  "onData N d st =
     (let st' = st\<lparr>rowIndex := rowIndex st + 1\<rparr> in
      case joi_validate N propertySchema d of
        Inl e \<Rightarrow>
          st'\<lparr>errors := errors st' @ [\<lparr>row = rowIndex st', data = d, error = details_message e\<rparr>]\<rparr>
      | Inr value \<Rightarrow> st'\<lparr>results := results st' @ [value]\<rparr>)"

text \<open>
  The promise resolves with both sequences on \<^verbatim>\<open>end\<close> and rejects on \<^verbatim>\<open>error\<close>.
  The buffer is already the text that \<^verbatim>\<open>buffer.toString()\<close> gives.
\<close>

definition processCSVStream :: "env \<Rightarrow> string \<Rightarrow> string + obj list \<times> row_error list" where
  "processCSVStream E buffer =
     (case csv E buffer of
        (rows, ending) \<Rightarrow>
          (let st = fold (onData (toNumber E)) rows \<lparr>results = [], errors = [], rowIndex = 0\<rparr> in
           case ending of
             End \<Rightarrow> Inr (results st, errors st)
           | Error e \<Rightarrow> Inl e))"

subsection \<open>Property.insertMany\<close>

text \<open>The mock logs the size of the batch and returns every record with an id.\<close>

fun with_ids :: "env \<Rightarrow> nat \<Rightarrow> obj list \<Rightarrow> world \<Rightarrow> obj list \<times> world" where
  "with_ids E index [] w = ([], w)"
| "with_ids E index (prop # props) w =
     (let (t, w1) = Date_now E w;
          (rest, w2) = with_ids E (Suc index) props w1
      in (prop(''id'' \<mapsto> JNumber (of_int (t + int index))) # rest, w2))"

definition insertMany :: "env \<Rightarrow> obj list \<Rightarrow> world \<Rightarrow> obj list \<times> world" where
  "insertMany E properties w =
     (let w1 = emit (InsertMany properties) w;
          w2 = logger_info (''Batch inserting '' @ show_nat (length properties) @ '' properties'') w1
      in with_ids E 0 properties w2)"

subsection \<open>The handler of POST /import-properties\<close>

record upload =
  originalname :: string
  buffer :: "string option"

text \<open>\<^verbatim>\<open>req.file\<close> as the upload middleware leaves it.\<close>

record request =
  req_file :: "upload option"

record import_summary =
  totalProcessed :: nat
  successful :: nat
  failed :: nat
  processingTimeMs :: int

text \<open>
  The status and the JSON body of a response; \<open>failure\<close> is the key \<^verbatim>\<open>error\<close> of
  the body, and a key that the handler does not set is \<open>None\<close>.
\<close>

record response =
  status :: nat
  success :: bool
  failure :: "string option"
  message :: "string option"
  summary :: "import_summary option"
  validationErrors :: "row_error list option"

text \<open>The mock authentication middleware sets \<^verbatim>\<open>req.user.id\<close>.\<close>

definition authenticateUser :: string where
  "authenticateUser = ''broker_123''"

definition rejected :: "nat \<Rightarrow> string \<Rightarrow> response" where
  "rejected st msg =
     \<lparr>status = st, success = False, failure = Some msg, message = None,
      summary = None, validationErrors = None\<rparr>"

text \<open>\<^verbatim>\<open>validProperties.map\<close>: each record gets the broker and its own \<^verbatim>\<open>new Date()\<close>.\<close>

fun with_broker :: "env \<Rightarrow> string \<Rightarrow> obj list \<Rightarrow> world \<Rightarrow> obj list \<times> world" where
  "with_broker E uid [] w = ([], w)"
| "with_broker E uid (property # props) w =
     (let (t, w1) = Date_now E w;
          (rest, w2) = with_broker E uid props w1
      in (property(''brokerId'' \<mapsto> JString uid, ''createdAt'' \<mapsto> JDate t) # rest, w2))"

text \<open>The handler from the batch insert to the response of status 200.\<close>

definition insert_and_report ::
  "env \<Rightarrow> int \<Rightarrow> obj list \<Rightarrow> row_error list \<Rightarrow> world \<Rightarrow> response \<times> world" where
  "insert_and_report E startTime validProperties errs w =
     (let (propertiesWithBroker, w1) = with_broker E authenticateUser validProperties w;
          (insertedProperties, w2) = insertMany E propertiesWithBroker w1;
          (endTime, w3) = Date_now E w2;
          processingTime = endTime - startTime;
          w4 = logger_info ''CSV import completed successfully'' w3;
          res = \<lparr>status = 200, success = True, failure = None,
                 message = Some ''Import completed'',
                 summary = Some \<lparr>totalProcessed = length validProperties + length errs,
                                 successful = length insertedProperties,
                                 failed = length errs,
                                 processingTimeMs = processingTime\<rparr>,
                 validationErrors = None\<rparr>
      in (if length errs > 0
          then res\<lparr>validationErrors := Some errs,
                   message := Some (''Import completed with '' @ show_nat (length errs)
                                     @ '' validation errors'')\<rparr>
          else res, w4))"

text \<open>
  The body of the \<^verbatim>\<open>try\<close>; a rejected promise of \<^verbatim>\<open>processCSVStream\<close> is the
  exception that the \<^verbatim>\<open>catch\<close> turns into the response of status 500.
\<close>

definition import_properties :: "env \<Rightarrow> request \<Rightarrow> world \<Rightarrow> response \<times> world" where
  "import_properties E req w =
     (let (startTime, w1) = Date_now E w in
      case req_file req of
        None \<Rightarrow> (rejected 400 ''No CSV file provided'', w1)
      | Some f \<Rightarrow>
          (case buffer f of
             None \<Rightarrow> (rejected 400 ''Empty CSV file provided'', w1)
           | Some b \<Rightarrow>
               if length b = 0 then (rejected 400 ''Empty CSV file provided'', w1)
               else
                 (let w2 = logger_info ''Starting CSV import'' w1;
                      w3 = emit (Decode b) w2
                  in case processCSVStream E b of
                       Inl e \<Rightarrow>
                         ((rejected 500 ''Internal server error during import'')
                            \<lparr>message :=
                               Some ''Please try again or contact support if the problem persists''\<rparr>,
                          logger_error ''CSV import failed'' w3)
                     | Inr (validProperties, errs) \<Rightarrow>
                         if length validProperties = 0
                         then ((rejected 400 ''No valid properties found in CSV'')
                                 \<lparr>validationErrors := Some errs\<rparr>, w3)
                         else insert_and_report E startTime validProperties errs w3)))"

text \<open>The calls of \<^verbatim>\<open>Property.insertMany\<close> among the effects.\<close>

fun inserted_batches :: "effect list \<Rightarrow> obj list list" where
  "inserted_batches [] = []"
| "inserted_batches (InsertMany batch # xs) = batch # inserted_batches xs"
| "inserted_batches (_ # xs) = inserted_batches xs"

definition start :: world where
  "start = \<lparr>effects = [], ticks = 0\<rparr>"

subsection \<open>The schema in the words of the specification\<close>

text \<open>
  The specification's table of rules: title is required with a trimmed length between
  1 and 200; price is required, parses to a number and is greater than 0; projectId is
  required with a trimmed length of at least 1. The number a cell parses to is the
  coerced number within the safe range.
\<close>

definition parsed_number :: "(string \<Rightarrow> coerced) \<Rightarrow> string \<Rightarrow> rat option" where
  "parsed_number N s =
     (case N s of
        Number x \<Rightarrow> if x > MAX_SAFE_INTEGER \<or> x < MIN_SAFE_INTEGER then None else Some x
      | _ \<Rightarrow> None)"

definition title_ok :: "raw_record \<Rightarrow> bool" where
  "title_ok raw =
     (case raw ''title'' of
        None \<Rightarrow> False
      | Some s \<Rightarrow> 1 \<le> length (trim s) \<and> length (trim s) \<le> 200)"

definition price_ok :: "(string \<Rightarrow> coerced) \<Rightarrow> raw_record \<Rightarrow> bool" where
  "price_ok N raw =
     (case raw ''price'' of
        None \<Rightarrow> False
      | Some s \<Rightarrow> (case parsed_number N s of None \<Rightarrow> False | Some x \<Rightarrow> 0 < x))"

definition projectId_ok :: "raw_record \<Rightarrow> bool" where
  "projectId_ok raw =
     (case raw ''projectId'' of
        None \<Rightarrow> False
      | Some s \<Rightarrow> 1 \<le> length (trim s))"

definition row_valid :: "(string \<Rightarrow> coerced) \<Rightarrow> raw_record \<Rightarrow> bool" where
  "row_valid N raw \<longleftrightarrow> title_ok raw \<and> price_ok N raw \<and> projectId_ok raw"

text \<open>
  For stating what the loop collects: the row error of an invalid record at the 1-based
  position \<open>fst p\<close> (a valid record has none, and the message is then left empty), and
  the validated record of a valid one (an invalid record has none, and the map is then
  left empty).
\<close>

definition row_error_at :: "(string \<Rightarrow> coerced) \<Rightarrow> nat \<times> raw_record \<Rightarrow> row_error" where
  "row_error_at N p =
     (case joi_validate N propertySchema (snd p) of
        Inl e \<Rightarrow> \<lparr>row = fst p, data = snd p, error = details_message e\<rparr>
      | Inr v \<Rightarrow> \<lparr>row = fst p, data = snd p, error = []\<rparr>)"

definition validated :: "(string \<Rightarrow> coerced) \<Rightarrow> raw_record \<Rightarrow> obj" where
  "validated N raw =
     (case joi_validate N propertySchema raw of Inl e \<Rightarrow> Map.empty | Inr v \<Rightarrow> v)"

subsection \<open>A concrete environment\<close>

text \<open>
  For runs on concrete rows: a number coercion that converts the decimal integer
  literals of at most 15 digits, as the library does, and leaves every other string
  as it is; a decoder that finds the header line \<^verbatim>\<open>title,price,projectId\<close> and the given
  lines and then ends, whatever the bytes; a clock that advances by one millisecond at
  each reading. The lines are those of the specification's scenarios, followed by the
  row objects they decode to.
\<close>

definition is_digit :: "char \<Rightarrow> bool" where
  "is_digit c \<longleftrightarrow> c \<in> set ''0123456789''"

definition digits_value :: "string \<Rightarrow> nat" where
  "digits_value s = foldl (\<lambda>n c. 10 * n + (of_char c - 48)) 0 s"

definition plain_integer :: "string \<Rightarrow> coerced" where
  "plain_integer s =
     (case s of
        [] \<Rightarrow> Unconverted
      | c # cs \<Rightarrow>
          if c = CHR ''-''
          then (if cs \<noteq> [] \<and> list_all is_digit cs \<and> length cs \<le> 15
                then Number (- of_nat (digits_value cs)) else Unconverted)
          else (if list_all is_digit s \<and> length s \<le> 15
                then Number (of_nat (digits_value s)) else Unconverted))"

definition header_line :: "string list" where
  "header_line = [''title'', ''price'', ''projectId'']"

definition decoding_to :: "string list list \<Rightarrow> env" where
  "decoding_to ls =
     \<lparr>parseLines = (\<lambda>buffer. (header_line # ls, End)), toNumber = plain_integer,
      now = (\<lambda>k. 1700000000000 + int k)\<rparr>"

definition villa_line :: "string list" where
  "villa_line = [''Villa'', ''500000'', ''p1'']"

definition untitled_line :: "string list" where
  "untitled_line = [[], ''100'', ''p1'']"

definition underpriced_line :: "string list" where
  "underpriced_line = [''Ok'', ''-5'', ''p1'']"

definition villa :: raw_record where
  "villa = [''title'' \<mapsto> ''Villa'', ''price'' \<mapsto> ''500000'', ''projectId'' \<mapsto> ''p1'']"

definition untitled :: raw_record where
  "untitled = [''title'' \<mapsto> [], ''price'' \<mapsto> ''100'', ''projectId'' \<mapsto> ''p1'']"

definition underpriced :: raw_record where
  "underpriced = [''title'' \<mapsto> ''Ok'', ''price'' \<mapsto> ''-5'', ''projectId'' \<mapsto> ''p1'']"

definition untitled_underpriced :: raw_record where
  "untitled_underpriced = [''title'' \<mapsto> [], ''price'' \<mapsto> ''-5'', ''projectId'' \<mapsto> ''p1'']"

definition with_garden :: raw_record where
  "with_garden = villa(''garden'' \<mapsto> ''yes'', ''_3'' \<mapsto> ''x'')"

definition villa_store :: store where
  "villa_store = \<lparr>objects = [0 \<mapsto> as_obj villa], next_addr = 1\<rparr>"

definition empty_acc :: csv_acc where
  "empty_acc = \<lparr>results = [], errors = [], rowIndex = 0\<rparr>"

definition upload_of :: "string \<Rightarrow> request" where
  "upload_of b = \<lparr>req_file = Some \<lparr>originalname = ''sample.csv'', buffer = Some b\<rparr>\<rparr>"

section \<open>Lemmas\<close>

subsection \<open>Validation of one row\<close>

lemma trim_end:
  "u = [] \<or> \<not> P (hd u) \<Longrightarrow>
   dropWhile P (rev (dropWhile P (rev u))) = rev (dropWhile P (rev u))"
  by (metis dropWhile_eq_self_iff dropWhile_last hd_rev list.set_sel(1)
      rev.simps(1) rev_rev_ident set_rev)

lemma trim_trim: "trim (trim s) = trim s"
proof -
  let ?u = "dropWhile isWhiteSpace s"
  have "?u = [] \<or> \<not> isWhiteSpace (hd ?u)"
    using hd_dropWhile [of isWhiteSpace s] by blast
  then have "dropWhile isWhiteSpace (trim s) = trim s"
    unfolding trim_def by (rule trim_end)
  then show ?thesis
    by (simp add: trim_def)
qed

lemma title_child:
  "validate_child N (JoiString [Trim, MinLength 1, MaxLength 200] Required) cell =
     (case cell of
        None \<Rightarrow> Inl any_required
      | Some s \<Rightarrow>
          if trim s = [] then Inl string_empty
          else if 200 < length (trim s) then Inl (string_max 200)
          else Inr (Some (JString (trim s))))"
  by (cases cell) (auto simp: trim_trim Suc_le_eq)

lemma projectId_child:
  "validate_child N (JoiString [Trim, MinLength 1] Required) cell =
     (case cell of
        None \<Rightarrow> Inl any_required
      | Some s \<Rightarrow>
          if trim s = [] then Inl string_empty
          else Inr (Some (JString (trim s))))"
  by (cases cell) (auto simp: trim_trim Suc_le_eq)

lemma price_child:
  "validate_child N (JoiNumber [Positive] Required) cell =
     (case cell of
        None \<Rightarrow> Inl any_required
      | Some s \<Rightarrow>
          (case N s of
             Unconverted \<Rightarrow> Inl number_base
           | Unsafe \<Rightarrow> Inl number_unsafe
           | Number x \<Rightarrow>
               if x > MAX_SAFE_INTEGER \<or> x < MIN_SAFE_INTEGER then Inl number_unsafe
               else if 0 < x then Inr (Some (JNumber x))
               else Inl number_positive))"
  by (cases cell) (auto split: coerced.splits)

lemma validate_unfold:
  "joi_validate N propertySchema raw =
    (case validate_child N (JoiString [Trim, MinLength 1, MaxLength 200] Required) (raw ''title'') of
       Inl c \<Rightarrow> Inl \<lparr>path = ''title'', code = c\<rparr>
     | Inr t \<Rightarrow>
        (case validate_child N (JoiNumber [Positive] Required) (raw ''price'') of
           Inl c \<Rightarrow> Inl \<lparr>path = ''price'', code = c\<rparr>
         | Inr p \<Rightarrow>
            (case validate_child N (JoiString [Trim, MinLength 1] Required) (raw ''projectId'') of
               Inl c \<Rightarrow> Inl \<lparr>path = ''projectId'', code = c\<rparr>
             | Inr j \<Rightarrow> Inr ((\<lambda>k. None)(''title'' := t, ''price'' := p, ''projectId'' := j)))))"
  apply (simp add: joi_validate_def propertySchema_def split: sum.splits option.splits)
  apply (auto simp: restrict_map_def fun_eq_iff)
  done

lemma validate_title_fails:
  "\<not> title_ok raw \<Longrightarrow>
   joi_validate N propertySchema raw =
     Inl \<lparr>path = ''title'',
          code = (case raw ''title'' of
                    None \<Rightarrow> any_required
                  | Some s \<Rightarrow> if trim s = [] then string_empty else string_max 200)\<rparr>"
  unfolding validate_unfold title_child
  by (auto simp: title_ok_def Suc_le_eq split: option.splits)

lemma validate_price_fails:
  "title_ok raw \<Longrightarrow> \<not> price_ok N raw \<Longrightarrow>
   joi_validate N propertySchema raw =
     Inl \<lparr>path = ''price'',
          code = (case raw ''price'' of
                    None \<Rightarrow> any_required
                  | Some s \<Rightarrow>
                      (case N s of
                         Unconverted \<Rightarrow> number_base
                       | Unsafe \<Rightarrow> number_unsafe
                       | Number x \<Rightarrow>
                           if x > MAX_SAFE_INTEGER \<or> x < MIN_SAFE_INTEGER then number_unsafe
                           else number_positive))\<rparr>"
  unfolding validate_unfold title_child price_child
  by (auto simp: title_ok_def price_ok_def parsed_number_def Suc_le_eq
      split: option.splits coerced.splits if_splits)

lemma validate_projectId_fails:
  "title_ok raw \<Longrightarrow> price_ok N raw \<Longrightarrow> \<not> projectId_ok raw \<Longrightarrow>
   joi_validate N propertySchema raw =
     Inl \<lparr>path = ''projectId'',
          code = (case raw ''projectId'' of None \<Rightarrow> any_required | Some s \<Rightarrow> string_empty)\<rparr>"
  unfolding validate_unfold title_child price_child projectId_child
  by (auto simp: title_ok_def price_ok_def projectId_ok_def parsed_number_def Suc_le_eq
      split: option.splits coerced.splits if_splits)

lemma validate_passes:
  "title_ok raw \<Longrightarrow> price_ok N raw \<Longrightarrow> projectId_ok raw \<Longrightarrow>
   joi_validate N propertySchema raw =
     Inr [''title'' \<mapsto> JString (trim (the (raw ''title''))),
          ''price'' \<mapsto> JNumber (the (parsed_number N (the (raw ''price'')))),
          ''projectId'' \<mapsto> JString (trim (the (raw ''projectId'')))]"
  unfolding validate_unfold title_child price_child projectId_child
  by (auto simp: title_ok_def price_ok_def projectId_ok_def parsed_number_def Suc_le_eq fun_eq_iff
      split: option.splits coerced.splits if_splits)

subsection \<open>The row loop and the gateway\<close>

lemma validate_cases:
  "row_valid N raw \<Longrightarrow> \<exists>v. joi_validate N propertySchema raw = Inr v"
  "\<not> row_valid N raw \<Longrightarrow> \<exists>e. joi_validate N propertySchema raw = Inl e"
  using validate_passes [of raw N] validate_title_fails [of raw N]
    validate_price_fails [of raw N] validate_projectId_fails [of raw N]
  by (auto simp: row_valid_def)

lemma row_valid_iff:
  "row_valid N raw \<longleftrightarrow> (\<exists>v. joi_validate N propertySchema raw = Inr v)"
proof (cases "row_valid N raw")
  case True
  then show ?thesis
    using validate_cases(1) [of N raw] by simp
next
  case False
  then show ?thesis
    using validate_cases(2) [of N raw] by auto
qed

lemma onData_valid:
  "row_valid N d \<Longrightarrow>
   onData N d st = st\<lparr>rowIndex := rowIndex st + 1, results := results st @ [validated N d]\<rparr>"
  using validate_cases(1) [of N d]
  by (auto simp: onData_def validated_def Let_def)

lemma onData_invalid:
  "\<not> row_valid N d \<Longrightarrow>
   onData N d st =
     st\<lparr>rowIndex := rowIndex st + 1,
        errors := errors st @ [row_error_at N (rowIndex st + 1, d)]\<rparr>"
  using validate_cases(2) [of N d]
  by (auto simp: onData_def row_error_at_def Let_def)

lemma fold_onData:
  "fold (onData N) rows st =
     st\<lparr>results := results st @ map (validated N) (filter (row_valid N) rows),
        errors := errors st @
          map (row_error_at N)
            (filter (\<lambda>p. \<not> row_valid N (snd p))
               (zip [rowIndex st + 1 ..< rowIndex st + 1 + length rows] rows)),
        rowIndex := rowIndex st + length rows\<rparr>"
proof (induction rows arbitrary: st)
  case Nil
  show ?case by simp
next
  case (Cons d ds)
  have upt: "[rowIndex st + 1 ..< rowIndex st + 1 + length (d # ds)] =
      (rowIndex st + 1) # [rowIndex st + 2 ..< rowIndex st + 2 + length ds]"
    using upt_conv_Cons [of "rowIndex st + 1" "rowIndex st + 2 + length ds"] by simp
  show ?case
  proof (cases "row_valid N d")
    case True
    then show ?thesis
      unfolding upt by (simp add: Cons.IH onData_valid)
  next
    case False
    then show ?thesis
      unfolding upt by (simp add: Cons.IH onData_invalid)
  qed
qed

lemma processCSVStream_end:
  assumes "csv E b = (rows, End)"
  shows "processCSVStream E b =
     Inr (map (validated (toNumber E)) (filter (row_valid (toNumber E)) rows),
          map (row_error_at (toNumber E))
            (filter (\<lambda>p. \<not> row_valid (toNumber E) (snd p)) (zip [1 ..< Suc (length rows)] rows)))"
  using assms by (simp add: processCSVStream_def fold_onData)

lemma processCSVStream_error:
  assumes "csv E b = (rows, Error e)"
  shows "processCSVStream E b = Inl e"
  using assms by (simp add: processCSVStream_def)

lemma with_broker_shape:
  "with_broker E uid ps w = (ps', w') \<Longrightarrow>
   length ps' = length ps \<and> effects w' = effects w \<and> ticks w' = ticks w + length ps"
proof (induction ps arbitrary: w ps' w')
  case Nil
  then show ?case by auto
next
  case (Cons p ps)
  then show ?case
    by (auto simp: Date_now_def split: prod.splits)
qed

lemma with_ids_shape:
  "with_ids E i ps w = (ps', w') \<Longrightarrow>
   length ps' = length ps \<and> effects w' = effects w \<and> ticks w' = ticks w + length ps"
proof (induction ps arbitrary: i w ps' w')
  case Nil
  then show ?case by auto
next
  case (Cons p ps)
  then show ?case
    by (auto simp: Date_now_def split: prod.splits)
qed

lemma with_broker_step:
  "fst (with_broker E uid (p # ps) w) =
     p(''brokerId'' \<mapsto> JString uid, ''createdAt'' \<mapsto> JDate (now E (ticks w))) #
     fst (with_broker E uid ps (w\<lparr>ticks := Suc (ticks w)\<rparr>))"
  by (simp add: Date_now_def split: prod.splits)

lemma with_broker_content:
  "ticks w = k \<Longrightarrow>
   fst (with_broker E uid ps w) =
     map (\<lambda>(p, k). p(''brokerId'' \<mapsto> JString uid, ''createdAt'' \<mapsto> JDate (now E k)))
       (zip ps [k ..< k + length ps])"
proof (induction ps arbitrary: w k)
  case Nil
  show ?case by simp
next
  case (Cons p ps)
  let ?stamp = "\<lambda>(p, k). p(''brokerId'' \<mapsto> JString uid, ''createdAt'' \<mapsto> JDate (now E k))"
  have upt: "[k ..< k + length (p # ps)] = k # [Suc k ..< Suc k + length ps]"
    using upt_conv_Cons [of k "Suc k + length ps"] by simp
  have "ticks (w\<lparr>ticks := Suc k\<rparr>) = Suc k"
    by simp
  then have rest: "fst (with_broker E uid ps (w\<lparr>ticks := Suc k\<rparr>)) =
      map ?stamp (zip ps [Suc k ..< Suc k + length ps])"
    by (rule Cons.IH)
  have "fst (with_broker E uid (p # ps) w) =
      p(''brokerId'' \<mapsto> JString uid, ''createdAt'' \<mapsto> JDate (now E (ticks w))) #
      fst (with_broker E uid ps (w\<lparr>ticks := Suc (ticks w)\<rparr>))"
    by (rule with_broker_step)
  also have "\<dots> =
      p(''brokerId'' \<mapsto> JString uid, ''createdAt'' \<mapsto> JDate (now E k)) #
      map ?stamp (zip ps [Suc k ..< Suc k + length ps])"
    by (simp only: rest Cons.prems)
  also have "\<dots> = map ?stamp (zip (p # ps) (k # [Suc k ..< Suc k + length ps]))"
    by simp
  finally show ?case
    unfolding upt .
qed

lemma insertMany_shape:
  "insertMany E ps w = (ps', w') \<Longrightarrow>
   length ps' = length ps \<and>
   effects w' = effects w @
     [InsertMany ps, Log info (''Batch inserting '' @ show_nat (length ps) @ '' properties'')]"
  by (auto simp: insertMany_def Let_def logger_info_def emit_def dest!: with_ids_shape)

lemma filter_zip_length:
  "length (filter (\<lambda>p. \<not> P (snd p)) (zip [a ..< a + length rows] rows)) =
   length (filter (\<lambda>d. \<not> P d) rows)"
proof (induction rows arbitrary: a)
  case Nil
  show ?case by simp
next
  case (Cons d ds)
  have "[a ..< a + length (d # ds)] = a # [Suc a ..< Suc a + length ds]"
    using upt_conv_Cons [of a "Suc a + length ds"] by simp
  then show ?case
    using Cons.IH [of "Suc a"] by simp
qed

subsection \<open>The handler, case by case\<close>

lemma inserted_batches_append:
  "inserted_batches (xs @ ys) = inserted_batches xs @ inserted_batches ys"
  by (induction xs rule: inserted_batches.induct) simp_all

lemma insert_and_report_shape:
  assumes "insert_and_report E t0 vs es w = (res, w')"
  shows "status res = 200 \<and> success res \<and> failure res = None \<and>
     summary res =
       Some \<lparr>totalProcessed = length vs + length es, successful = length vs,
             failed = length es,
             processingTimeMs = now E (ticks w + length vs + length vs) - t0\<rparr> \<and>
     validationErrors res = (if es = [] then None else Some es) \<and>
     (\<exists>batch. batch = fst (with_broker E authenticateUser vs w) \<and>
        length batch = length vs \<and>
        effects w' = effects w @
          [InsertMany batch,
           Log info (''Batch inserting '' @ show_nat (length vs) @ '' properties''),
           Log info ''CSV import completed successfully''])"
proof -
  obtain ps w1 where wb: "with_broker E authenticateUser vs w = (ps, w1)"
    by (cases "with_broker E authenticateUser vs w")
  obtain qs w2 where im: "insertMany E ps w1 = (qs, w2)"
    by (cases "insertMany E ps w1")
  obtain xs w2' where ids: "with_ids E 0 ps
      (logger_info (''Batch inserting '' @ show_nat (length ps) @ '' properties'')
         (emit (InsertMany ps) w1)) = (xs, w2')"
    by (cases "with_ids E 0 ps
      (logger_info (''Batch inserting '' @ show_nat (length ps) @ '' properties'')
         (emit (InsertMany ps) w1))")
  from wb have 1: "length ps = length vs" "effects w1 = effects w" "ticks w1 = ticks w + length vs"
    using with_broker_shape by blast+
  from im have 2: "length qs = length ps"
    "effects w2 = effects w1 @
       [InsertMany ps, Log info (''Batch inserting '' @ show_nat (length ps) @ '' properties'')]"
    using insertMany_shape by blast+
  from im ids have "w2 = w2'"
    by (simp add: insertMany_def Let_def)
  with ids have 3: "ticks w2 = ticks w1 + length ps"
    using with_ids_shape [OF ids] by (simp add: logger_info_def emit_def)
  from assms wb im 1 2 3 show ?thesis
    by (auto simp: insert_and_report_def Let_def Date_now_def logger_info_def emit_def
        ac_simps)
qed


lemma import_properties_no_file:
  "req_file req = None \<Longrightarrow>
   import_properties E req w = (rejected 400 ''No CSV file provided'', w\<lparr>ticks := ticks w + 1\<rparr>)"
  by (simp add: import_properties_def Date_now_def)

lemma import_properties_empty:
  "req_file req = Some f \<Longrightarrow> buffer f = None \<or> buffer f = Some [] \<Longrightarrow>
   import_properties E req w =
     (rejected 400 ''Empty CSV file provided'', w\<lparr>ticks := ticks w + 1\<rparr>)"
  by (auto simp: import_properties_def Date_now_def)

lemma import_properties_decode_error:
  "req_file req = Some f \<Longrightarrow> buffer f = Some b \<Longrightarrow> b \<noteq> [] \<Longrightarrow>
   csv E b = (rows, Error e) \<Longrightarrow>
   import_properties E req w =
     ((rejected 500 ''Internal server error during import'')
        \<lparr>message := Some ''Please try again or contact support if the problem persists''\<rparr>,
      w\<lparr>ticks := ticks w + 1,
         effects := effects w @
           [Log info ''Starting CSV import'', Decode b, Log error_level ''CSV import failed'']\<rparr>)"
  by (simp add: import_properties_def Date_now_def processCSVStream_error [of E b rows e]
      logger_info_def logger_error_def emit_def Let_def)

lemma import_properties_no_valid:
  "req_file req = Some f \<Longrightarrow> buffer f = Some b \<Longrightarrow> b \<noteq> [] \<Longrightarrow>
   csv E b = (rows, End) \<Longrightarrow> filter (row_valid (toNumber E)) rows = [] \<Longrightarrow>
   import_properties E req w =
     ((rejected 400 ''No valid properties found in CSV'')
        \<lparr>validationErrors :=
           Some (map (row_error_at (toNumber E))
                  (filter (\<lambda>p. \<not> row_valid (toNumber E) (snd p))
                     (zip [1 ..< Suc (length rows)] rows)))\<rparr>,
      w\<lparr>ticks := ticks w + 1,
         effects := effects w @ [Log info ''Starting CSV import'', Decode b]\<rparr>)"
  by (simp add: import_properties_def Date_now_def processCSVStream_end [of E b rows]
      logger_info_def emit_def Let_def)

lemma import_properties_some_valid:
  "req_file req = Some f \<Longrightarrow> buffer f = Some b \<Longrightarrow> b \<noteq> [] \<Longrightarrow>
   csv E b = (rows, End) \<Longrightarrow> filter (row_valid (toNumber E)) rows \<noteq> [] \<Longrightarrow>
   import_properties E req w =
     insert_and_report E (now E (ticks w))
       (map (validated (toNumber E)) (filter (row_valid (toNumber E)) rows))
       (map (row_error_at (toNumber E))
          (filter (\<lambda>p. \<not> row_valid (toNumber E) (snd p)) (zip [1 ..< Suc (length rows)] rows)))
       (w\<lparr>ticks := ticks w + 1,
          effects := effects w @ [Log info ''Starting CSV import'', Decode b]\<rparr>)"
  by (simp add: import_properties_def Date_now_def processCSVStream_end [of E b rows]
      logger_info_def emit_def Let_def)

lemma count_rows:
  "length (filter P rows) +
   length (filter (\<lambda>p. \<not> P (snd p)) (zip [1 ..< Suc (length rows)] rows)) = length rows"
  using filter_zip_length [of P 1 rows] sum_length_filter_compl [of P rows]
  by simp

lemma import_properties_outcome:
  assumes run: "import_properties E req w = (res, w')"
  shows "(status res \<noteq> 200 \<and> summary res = None \<and> \<not> success res) \<or>
     (\<exists>f b rows. req_file req = Some f \<and> buffer f = Some b \<and> b \<noteq> [] \<and>
        csv E b = (rows, End) \<and> filter (row_valid (toNumber E)) rows \<noteq> [] \<and>
        insert_and_report E (now E (ticks w))
          (map (validated (toNumber E)) (filter (row_valid (toNumber E)) rows))
          (map (row_error_at (toNumber E))
             (filter (\<lambda>p. \<not> row_valid (toNumber E) (snd p))
                (zip [1 ..< Suc (length rows)] rows)))
          (w\<lparr>ticks := ticks w + 1,
             effects := effects w @ [Log info ''Starting CSV import'', Decode b]\<rparr>) = (res, w'))"
proof (cases "req_file req")
  case None
  with run show ?thesis
    by (auto simp: import_properties_no_file rejected_def)
next
  case (Some f)
  show ?thesis
  proof (cases "buffer f = None \<or> buffer f = Some []")
    case True
    with run Some show ?thesis
      using import_properties_empty [of req f E w] by (auto simp: rejected_def)
  next
    case False
    then obtain b where b: "buffer f = Some b" "b \<noteq> []"
      by auto
    obtain rows ending where dec: "csv E b = (rows, ending)"
      by (cases "csv E b")
    show ?thesis
    proof (cases ending)
      case (Error e)
      with run Some b dec show ?thesis
        using import_properties_decode_error [of req f b E rows e w]
        by (auto simp: rejected_def)
    next
      case End
      show ?thesis
      proof (cases "filter (row_valid (toNumber E)) rows = []")
        case True
        with run Some b dec End show ?thesis
          using import_properties_no_valid [of req f b E rows w]
          by (auto simp: rejected_def)
      next
        case False
        with run Some b dec End show ?thesis
          using import_properties_some_valid [of req f b E rows w] by simp
      qed
    qed
  qed
qed

lemma row_error_at_sel:
  "row (row_error_at N p) = fst p" "data (row_error_at N p) = snd p"
  by (simp_all add: row_error_at_def split: sum.splits)

lemma some_invalid_iff:
  "filter (\<lambda>p. \<not> P (snd p)) (zip [1 ..< Suc (length rows)] rows) \<noteq> [] \<longleftrightarrow>
   (\<exists>d \<in> set rows. \<not> P d)"
proof -
  have "length (filter (\<lambda>p. \<not> P (snd p)) (zip [1 ..< Suc (length rows)] rows)) =
      length (filter (\<lambda>d. \<not> P d) rows)"
    using filter_zip_length [of P 1 rows] by simp
  then have "filter (\<lambda>p. \<not> P (snd p)) (zip [1 ..< Suc (length rows)] rows) = [] \<longleftrightarrow>
      filter (\<lambda>d. \<not> P d) rows = []"
    by (metis length_0_conv)
  then show ?thesis
    by (auto simp: filter_empty_conv)
qed

subsection \<open>Runs on concrete rows\<close>

lemma villa_valid: "row_valid plain_integer villa"
  by (simp add: row_valid_def title_ok_def price_ok_def projectId_ok_def villa_def
      parsed_number_def plain_integer_def is_digit_def digits_value_def
      MAX_SAFE_INTEGER_def MIN_SAFE_INTEGER_def trim_def isWhiteSpace_def)

lemma untitled_invalid: "\<not> title_ok untitled"
  by (simp add: title_ok_def untitled_def trim_def)

lemma underpriced_invalid: "title_ok underpriced \<and> \<not> price_ok plain_integer underpriced"
  by (simp add: title_ok_def price_ok_def underpriced_def
      parsed_number_def plain_integer_def is_digit_def digits_value_def
      MAX_SAFE_INTEGER_def MIN_SAFE_INTEGER_def trim_def isWhiteSpace_def)

lemma sample_rows:
  "writeRow header_line villa_line = villa"
  "writeRow header_line untitled_line = untitled"
  "writeRow header_line underpriced_line = underpriced"
  by (simp_all add: writeRow_def column_def header_line_def villa_line_def villa_def
      untitled_line_def untitled_def underpriced_line_def underpriced_def)

lemma decoding_to_simps:
  "csv (decoding_to ls) b = (map (writeRow header_line) ls, End)"
  "toNumber (decoding_to ls) = plain_integer"
  "now (decoding_to ls) k = 1700000000000 + int k"
  "writeRow header_line villa_line = villa"
  "writeRow header_line untitled_line = untitled"
  "writeRow header_line underpriced_line = underpriced"
  by (simp_all add: decoding_to_def csv_def sample_rows)

lemma mixed_run:
  "import_properties (decoding_to [villa_line, underpriced_line]) (upload_of ''csv'') start =
   insert_and_report (decoding_to [villa_line, underpriced_line]) 1700000000000
     [validated plain_integer villa]
     [row_error_at plain_integer (2, underpriced)]
     \<lparr>effects = [Log info ''Starting CSV import'', Decode ''csv''], ticks = 1\<rparr>"
  using import_properties_some_valid
    [of "upload_of ''csv''" "\<lparr>originalname = ''sample.csv'', buffer = Some ''csv''\<rparr>" "''csv''"
        "decoding_to [villa_line, underpriced_line]" "[villa, underpriced]" start]
    villa_valid underpriced_invalid
  by (simp add: upload_of_def start_def decoding_to_simps row_valid_def numeral_2_eq_2)

subsection \<open>Further facts for the claims\<close>

lemma all_invalid_filter:
  assumes "\<forall>d \<in> set rows. \<not> P d"
  shows "filter (\<lambda>p. \<not> P (snd p)) (zip ns rows) = zip ns rows"
  using assms by (auto simp: filter_id_conv dest: set_zip_rightD)

lemma map_row_error_at:
  "map row (map (row_error_at N) ps) = map fst ps"
  "map data (map (row_error_at N) ps) = map snd ps"
  by (induction ps) (simp_all add: row_error_at_sel)

lemma replicated_valid:
  "filter (row_valid plain_integer) (replicate n villa) = replicate n villa"
  by (simp add: villa_valid)

lemma onData_rejects:
  "joi_validate N propertySchema d = Inl e \<Longrightarrow>
   onData N d st =
     st\<lparr>rowIndex := rowIndex st + 1,
        errors := errors st @ [\<lparr>row = rowIndex st + 1, data = d, error = details_message e\<rparr>]\<rparr>"
  by (simp add: onData_def Let_def)



lemma numbered_sorted:
  "sorted_wrt (<) (map fst (filter Q (zip [a ..< b] rows)))"
proof -
  have "sorted_wrt (<) (map fst (zip [a ..< b] rows))"
    by (simp add: map_fst_zip_take sorted_wrt_take del: upt_Suc)
  then have "sorted_wrt (\<lambda>p q. fst p < fst q) (zip [a ..< b] rows)"
    by (simp add: sorted_wrt_map)
  then have "sorted_wrt (\<lambda>p q. fst p < fst q) (filter Q (zip [a ..< b] rows))"
    by (rule sorted_wrt_filter)
  then show ?thesis
    by (simp add: sorted_wrt_map)
qed

lemma numbered_nth:
  "p \<in> set (zip [1 ..< Suc (length rows)] rows) \<Longrightarrow>
   1 \<le> fst p \<and> fst p \<le> length rows \<and> snd p = rows ! (fst p - 1)"
  by (cases p) (auto simp: set_zip simp del: upt_Suc)

lemma untitled_row_invalid: "\<not> row_valid plain_integer untitled"
  using untitled_invalid by (simp add: row_valid_def)

lemma underpriced_row_invalid: "\<not> row_valid plain_integer underpriced"
  using underpriced_invalid by (simp add: row_valid_def)

lemma validated_dom:
  assumes "joi_validate N propertySchema raw = Inr v"
  shows "dom v = {''title'', ''price'', ''projectId''}"
proof -
  have valid: "row_valid N raw"
    using assms validate_cases(2) [of N raw] by auto
  then have "title_ok raw" "price_ok N raw" "projectId_ok raw"
    by (simp_all add: row_valid_def)
  from validate_passes [OF this] assms show ?thesis
    by auto
qed

lemma untitled_underpriced_invalid: "\<not> title_ok untitled_underpriced"
  by (simp add: title_ok_def untitled_underpriced_def trim_def)

lemma body_by_index:
  "map f body = map (\<lambda>i. f ((h # body) ! i)) [1 ..< Suc (length body)]"
proof -
  have "[1 ..< Suc (length body)] = map Suc [0 ..< length body]"
    by (simp only: map_Suc_upt One_nat_def)
  then have "map (\<lambda>i. f ((h # body) ! i)) [1 ..< Suc (length body)] =
      map (\<lambda>i. f (body ! i)) [0 ..< length body]"
    by (simp add: comp_def del: upt_Suc)
  also have "\<dots> = map f (map (\<lambda>i. body ! i) [0 ..< length body])"
    by (simp add: comp_def del: upt_Suc)
  also have "\<dots> = map f body"
    by (simp only: map_nth)
  finally show ?thesis
    by simp
qed

lemma csv_lines:
  assumes "parseLines E b = (ls, ending)"
  shows "csv E b = (map (\<lambda>i. writeRow (ls ! 0) (ls ! i)) [1 ..< length ls], ending)"
proof (cases ls)
  case Nil
  with assms show ?thesis
    by (simp add: csv_def)
next
  case (Cons h body)
  have "map (writeRow h) body = map (\<lambda>i. writeRow h ((h # body) ! i)) [1 ..< Suc (length body)]"
    by (rule body_by_index)
  with assms Cons show ?thesis
    by (simp add: csv_def del: upt_Suc)
qed

lemma zip_numbered:
  "zip ns (map g ns) = map (\<lambda>i. (i, g i)) ns"
  by (induction ns) simp_all

lemma validate_item_cell:
  "validate_item N child (map_option JString cell) = validate_child N child cell"
  by (cases cell) simp_all

lemma validate_keys_at_pure:
  assumes "objects s c = Some ob"
    and "\<forall>k \<in> set (map fst keys). ob k = map_option JString (raw k)"
    and "distinct (map fst keys)"
  shows "\<exists>s'. validate_keys_at N keys c s =
        (case validate_keys N keys raw ob of Inl e \<Rightarrow> Some e | Inr v \<Rightarrow> None, s') \<and>
     (\<forall>b. b \<noteq> c \<longrightarrow> objects s' b = objects s b) \<and>
     next_addr s' = next_addr s \<and>
     (\<forall>v. validate_keys N keys raw ob = Inr v \<longrightarrow> objects s' c = Some v)"
  using assms
proof (induction keys arbitrary: s ob)
  case Nil
  then show ?case by simp
next
  case (Cons kc keys)
  obtain key child where kc: "kc = (key, child)"
    by (cases kc)
  have item: "obj_at s c key = map_option JString (raw key)"
    using Cons.prems(1,2) by (simp add: obj_at_def kc)
  show ?case
  proof (cases "validate_child N child (raw key)")
    case (Inl jc)
    then show ?thesis
      by (simp add: kc item validate_item_cell)
  next
    case (Inr r)
    let ?s = "set_key c key r s"
    have 1: "objects ?s c = Some (ob(key := r))"
      using Cons.prems(1) by (simp add: set_key_def obj_at_def)
    have 2: "\<forall>k \<in> set (map fst keys). (ob(key := r)) k = map_option JString (raw k)"
      using Cons.prems(2,3) by (auto simp: kc)
    have 3: "distinct (map fst keys)"
      using Cons.prems(3) by simp
    from Cons.IH [OF 1 2 3] obtain s' where
      run: "validate_keys_at N keys c ?s =
        (case validate_keys N keys raw (ob(key := r)) of Inl e \<Rightarrow> Some e | Inr v \<Rightarrow> None, s')"
      and frame: "\<forall>b. b \<noteq> c \<longrightarrow> objects s' b = objects ?s b"
      and nxt: "next_addr s' = next_addr ?s"
      and res: "\<forall>v. validate_keys N keys raw (ob(key := r)) = Inr v \<longrightarrow> objects s' c = Some v"
      by blast
    have step: "validate_keys N (kc # keys) raw ob = validate_keys N keys raw (ob(key := r))"
      using Inr by (cases r) (simp_all add: kc)
    have "validate_keys_at N (kc # keys) c s = validate_keys_at N keys c ?s"
      using Inr by (simp add: kc item validate_item_cell)
    with run frame nxt res step show ?thesis
      by (auto simp: set_key_def)
  qed
qed

lemma validate_at_pure:
  assumes wf: "well_formed s"
    and inp: "objects s a = Some (map_option JString \<circ> raw)"
    and dist: "distinct (map fst keys)"
  shows "\<exists>s'. validate_at N keys a s =
        (case joi_validate N keys raw of Inl e \<Rightarrow> Inl e | Inr v \<Rightarrow> Inr (next_addr s), s') \<and>
     (\<forall>b. b \<noteq> next_addr s \<longrightarrow> objects s' b = objects s b) \<and>
     next_addr s' = Suc (next_addr s) \<and> well_formed s' \<and>
     (\<forall>v. joi_validate N keys raw = Inr v \<longrightarrow> objects s' (next_addr s) = Some v)"
proof -
  let ?c = "next_addr s"
  let ?copy = "map_option JString \<circ> raw"
  let ?s1 = "s\<lparr>objects := (objects s)(?c \<mapsto> ?copy), next_addr := Suc ?c\<rparr>"
  have clone: "alloc (obj_at s a) s = (?c, ?s1)"
    using inp by (simp add: alloc_def obj_at_def)
  have 1: "objects ?s1 ?c = Some ?copy"
    by simp
  have 2: "\<forall>k \<in> set (map fst keys). ?copy k = map_option JString (raw k)"
    by simp
  from validate_keys_at_pure [OF 1 2 dist, of N] obtain s2 where
    run: "validate_keys_at N keys ?c ?s1 =
        (case validate_keys N keys raw ?copy of Inl e \<Rightarrow> Some e | Inr v \<Rightarrow> None, s2)"
    and frame: "\<forall>b. b \<noteq> ?c \<longrightarrow> objects s2 b = objects ?s1 b"
    and nxt: "next_addr s2 = next_addr ?s1"
    and res: "\<forall>v. validate_keys N keys raw ?copy = Inr v \<longrightarrow> objects s2 ?c = Some v"
    by blast
  show ?thesis
  proof (cases "validate_keys N keys raw ?copy")
    case (Inl e)
    with clone run frame nxt wf show ?thesis
      by (auto simp: validate_at_def joi_validate_def well_formed_def)
  next
    case (Inr v)
    with clone run frame nxt res wf show ?thesis
      by (auto simp: validate_at_def joi_validate_def well_formed_def strip_unknown_def obj_at_def)
  qed
qed

lemma propertySchema_distinct: "distinct (map fst propertySchema)"
  by (simp add: propertySchema_def)

section \<open>The claims\<close>

text \<open>
  C1 (as the code has it): the handler has no batch threshold. When a non-empty upload
  decodes to rows of which at least one is valid, all validated records, each with the
  broker and its creation date, go to \<^verbatim>\<open>Property.insertMany\<close> in exactly one call,
  made after the decoder has run; the call has as many records as there are valid rows.
\<close>

theorem valid_rows_inserted_in_one_call:
  assumes "req_file req = Some f" and "buffer f = Some b" and "b \<noteq> []"
    and "csv E b = (rows, End)"
    and "\<exists>d \<in> set rows. row_valid (toNumber E) d"
  shows "\<exists>batch.
     batch =
       map (\<lambda>(p, k). p(''brokerId'' \<mapsto> JString authenticateUser,
                       ''createdAt'' \<mapsto> JDate (now E k)))
         (zip (map (validated (toNumber E)) (filter (row_valid (toNumber E)) rows))
              [ticks w + 1 ..< ticks w + 1 + length (filter (row_valid (toNumber E)) rows)]) \<and>
     length batch = length (filter (row_valid (toNumber E)) rows) \<and>
     effects (snd (import_properties E req w)) =
       effects w @
       [Log info ''Starting CSV import'', Decode b, InsertMany batch,
        Log info (''Batch inserting '' @ show_nat (length batch) @ '' properties''),
        Log info ''CSV import completed successfully''] \<and>
     inserted_batches (effects (snd (import_properties E req w))) =
       inserted_batches (effects w) @ [batch]"
proof -
  let ?N = "toNumber E"
  let ?vs = "map (validated ?N) (filter (row_valid ?N) rows)"
  let ?w = "w\<lparr>ticks := ticks w + 1,
      effects := effects w @ [Log info ''Starting CSV import'', Decode b]\<rparr>"
  from assms(5) have some: "filter (row_valid ?N) rows \<noteq> []"
    by (simp add: filter_empty_conv)
  have content: "fst (with_broker E authenticateUser ?vs ?w) =
      map (\<lambda>(p, k). p(''brokerId'' \<mapsto> JString authenticateUser,
                      ''createdAt'' \<mapsto> JDate (now E k)))
        (zip ?vs [ticks w + 1 ..< ticks w + 1 + length ?vs])"
    by (rule with_broker_content) simp
  have "import_properties E req w = (fst (import_properties E req w), snd (import_properties E req w))"
    by simp
  then have "insert_and_report E (now E (ticks w)) ?vs
      (map (row_error_at ?N)
         (filter (\<lambda>p. \<not> row_valid ?N (snd p)) (zip [1 ..< Suc (length rows)] rows))) ?w =
      (fst (import_properties E req w), snd (import_properties E req w))"
    using import_properties_some_valid [OF assms(1-4) some, of w] by simp
  from insert_and_report_shape [OF this] content show ?thesis
    by (auto simp: inserted_batches_append)
qed

theorem valid_rows_inserted_in_one_call_witness:
  "map length
     (inserted_batches
        (effects (snd (import_properties (decoding_to [villa_line, underpriced_line, villa_line])
                         (upload_of ''csv'') start)))) = [2]"
proof -
  have "\<exists>d \<in> set [villa, underpriced, villa].
      row_valid (toNumber (decoding_to [villa_line, underpriced_line, villa_line])) d"
    by (simp add: decoding_to_simps villa_valid)
  from valid_rows_inserted_in_one_call
    [of "upload_of ''csv''" "\<lparr>originalname = ''sample.csv'', buffer = Some ''csv''\<rparr>" "''csv''"
        "decoding_to [villa_line, underpriced_line, villa_line]" "[villa, underpriced, villa]" start, OF _ _ _ _ this]
    villa_valid underpriced_invalid
  show ?thesis
    by (auto simp: upload_of_def start_def decoding_to_simps row_valid_def)
qed

text \<open>
  For 2500 valid rows the gateway receives one call of 2500 records, not three calls of
  1000, 1000 and 500.
\<close>

theorem batches_of_1000_counterexample:
  "map length
     (inserted_batches
        (effects (snd (import_properties (decoding_to (replicate 2500 villa_line))
                         (upload_of ''csv'') start)))) = [2500]"
proof -
  let ?E = "decoding_to (replicate 2500 villa_line)"
  let ?R = "import_properties ?E (upload_of ''csv'') start"
  let ?vs = "map (validated (toNumber ?E)) (filter (row_valid (toNumber ?E)) (replicate 2500 villa))"
  let ?es = "map (row_error_at (toNumber ?E))
      (filter (\<lambda>p. \<not> row_valid (toNumber ?E) (snd p))
         (zip [1 ..< Suc (length (replicate 2500 villa))] (replicate 2500 villa)))"
  let ?w = "start\<lparr>ticks := ticks start + 1,
      effects := effects start @ [Log info ''Starting CSV import'', Decode ''csv'']\<rparr>"
  have size: "length (filter (row_valid (toNumber ?E)) (replicate 2500 villa)) = 2500"
    by (simp add: decoding_to_simps replicated_valid)
  have "filter (row_valid (toNumber ?E)) (replicate 2500 villa) \<noteq> []"
    by (simp add: decoding_to_simps replicated_valid)
  then have "?R = insert_and_report ?E (now ?E (ticks start)) ?vs ?es ?w"
    by (intro import_properties_some_valid
        [of _ "\<lparr>originalname = ''sample.csv'', buffer = Some ''csv''\<rparr>" "''csv''"])
      (simp_all add: upload_of_def decoding_to_simps)
  then have "insert_and_report ?E (now ?E (ticks start)) ?vs ?es ?w = (fst ?R, snd ?R)"
    by simp
  from insert_and_report_shape [OF this]
  obtain batch where "length batch = length ?vs" and "effects (snd ?R) = effects ?w @
      [InsertMany batch,
       Log info (''Batch inserting '' @ show_nat (length ?vs) @ '' properties''),
       Log info ''CSV import completed successfully'']"
    by blast
  then show ?thesis
    by (simp add: inserted_batches_append start_def size)
qed

text \<open>
  C2: whenever the handler answers with a summary, \<open>totalProcessed\<close> is
  \<open>successful + failed\<close>; \<open>totalProcessed\<close> is the number of decoded rows,
  \<open>failed\<close> the number of rows that fail validation, and \<open>successful\<close> the size of
  the batch that \<^verbatim>\<open>Property.insertMany\<close> received and stored.
\<close>

theorem summary_counts_add_up:
  assumes run: "import_properties E req w = (res, w')"
    and sum: "summary res = Some s"
  shows "totalProcessed s = successful s + failed s \<and>
     (\<exists>f b rows. req_file req = Some f \<and> buffer f = Some b \<and> csv E b = (rows, End) \<and>
        totalProcessed s = length rows \<and>
        failed s = length (filter (\<lambda>d. \<not> row_valid (toNumber E) d) rows) \<and>
        map length (inserted_batches (effects w')) =
          map length (inserted_batches (effects w)) @ [successful s])"
proof -
  let ?N = "toNumber E"
  from import_properties_outcome [OF run] sum
  obtain f b rows where req: "req_file req = Some f" "buffer f = Some b" "csv E b = (rows, End)"
    and rep: "insert_and_report E (now E (ticks w))
          (map (validated ?N) (filter (row_valid ?N) rows))
          (map (row_error_at ?N)
             (filter (\<lambda>p. \<not> row_valid ?N (snd p)) (zip [1 ..< Suc (length rows)] rows)))
          (w\<lparr>ticks := ticks w + 1,
             effects := effects w @ [Log info ''Starting CSV import'', Decode b]\<rparr>) = (res, w')"
    by auto
  from insert_and_report_shape [OF rep] sum
  obtain batch where s: "totalProcessed s = length (filter (row_valid ?N) rows) +
        length (filter (\<lambda>p. \<not> row_valid ?N (snd p)) (zip [1 ..< Suc (length rows)] rows))"
      "successful s = length (filter (row_valid ?N) rows)"
      "failed s =
        length (filter (\<lambda>p. \<not> row_valid ?N (snd p)) (zip [1 ..< Suc (length rows)] rows))"
    and eff: "effects w' = effects w @ [Log info ''Starting CSV import'', Decode b] @
        [InsertMany batch,
         Log info (''Batch inserting '' @ show_nat (length (filter (row_valid ?N) rows))
                    @ '' properties''),
         Log info ''CSV import completed successfully'']"
    and len: "length batch = length (filter (row_valid ?N) rows)"
    by auto
  have total: "totalProcessed s = length rows"
    using count_rows [of "row_valid ?N" rows] by (simp add: s)
  have failed: "failed s = length (filter (\<lambda>d. \<not> row_valid ?N d) rows)"
    using filter_zip_length [of "row_valid ?N" 1 rows] by (simp add: s)
  have calls: "map length (inserted_batches (effects w')) =
      map length (inserted_batches (effects w)) @ [successful s]"
    by (simp add: eff inserted_batches_append len s)
  from total failed calls req s show ?thesis
    by simp
qed

theorem summary_counts_add_up_witness:
  "\<exists>s. summary (fst (import_properties (decoding_to [villa_line, underpriced_line]) (upload_of ''csv'') start))
          = Some s \<and>
        totalProcessed s = 2 \<and> totalProcessed s = successful s + failed s"
proof -
  let ?R = "import_properties (decoding_to [villa_line, underpriced_line]) (upload_of ''csv'') start"
  have run: "?R = (fst ?R, snd ?R)"
    by simp
  obtain s where s: "summary (fst ?R) = Some s"
    using insert_and_report_shape [OF prod.collapse [symmetric]] unfolding mixed_run by blast
  from summary_counts_add_up [OF run s] s show ?thesis
    by (auto simp: decoding_to_simps upload_of_def)
qed

text \<open>
  C3 (as the code has it): when a non-empty upload decodes, without a stream error, to
  rows that all fail validation, the response has status 400 and the error
  \<^verbatim>\<open>No valid properties found in CSV\<close>, its \<open>validationErrors\<close> hold one row
  error for each data row, numbered from 1 in file order, and
  \<^verbatim>\<open>Property.insertMany\<close> is not called. The response has no summary: it reports no
  \<open>successful\<close> and no \<open>failed\<close> count.
\<close>

theorem all_rows_invalid_rejected:
  assumes "req_file req = Some f" and "buffer f = Some b" and "b \<noteq> []"
    and "csv E b = (rows, End)"
    and "\<forall>d \<in> set rows. \<not> row_valid (toNumber E) d"
  shows "status (fst (import_properties E req w)) = 400 \<and>
     \<not> success (fst (import_properties E req w)) \<and>
     failure (fst (import_properties E req w)) = Some ''No valid properties found in CSV'' \<and>
     summary (fst (import_properties E req w)) = None \<and>
     (\<exists>errs. validationErrors (fst (import_properties E req w)) = Some errs \<and>
        map row errs = [1 ..< Suc (length rows)] \<and> map data errs = rows) \<and>
     inserted_batches (effects (snd (import_properties E req w))) = inserted_batches (effects w)"
proof -
  let ?N = "toNumber E"
  let ?numbered = "zip [1 ..< Suc (length rows)] rows"
  let ?errs = "map (row_error_at ?N) ?numbered"
  from assms(5) have none: "filter (row_valid ?N) rows = []"
    by (simp add: filter_empty_conv)
  have every: "filter (\<lambda>p. \<not> row_valid ?N (snd p)) ?numbered = ?numbered"
    using assms(5) by (rule all_invalid_filter)
  have run: "import_properties E req w =
      ((rejected 400 ''No valid properties found in CSV'')\<lparr>validationErrors := Some ?errs\<rparr>,
       w\<lparr>ticks := ticks w + 1,
          effects := effects w @ [Log info ''Starting CSV import'', Decode b]\<rparr>)"
    using import_properties_no_valid [OF assms(1-4) none, of w] unfolding every .
  have "map fst ?numbered = [1 ..< Suc (length rows)]"
    by (rule map_fst_zip) (simp del: upt_Suc)
  then have rows: "map row ?errs = [1 ..< Suc (length rows)]"
    unfolding map_row_error_at .
  have "map snd ?numbered = rows"
    by (rule map_snd_zip) (simp del: upt_Suc)
  then have data: "map data ?errs = rows"
    unfolding map_row_error_at .
  have "validationErrors (fst (import_properties E req w)) = Some ?errs"
    unfolding run by (simp add: rejected_def)
  with rows data have "\<exists>errs. validationErrors (fst (import_properties E req w)) = Some errs \<and>
      map row errs = [1 ..< Suc (length rows)] \<and> map data errs = rows"
    by blast
  moreover have "status (fst (import_properties E req w)) = 400"
    "\<not> success (fst (import_properties E req w))"
    "failure (fst (import_properties E req w)) = Some ''No valid properties found in CSV''"
    "summary (fst (import_properties E req w)) = None"
    unfolding run by (simp_all add: rejected_def)
  moreover have "inserted_batches (effects (snd (import_properties E req w))) =
      inserted_batches (effects w)"
    unfolding run by (simp add: inserted_batches_append)
  ultimately show ?thesis
    by blast
qed

theorem all_rows_invalid_rejected_witness:
  "status (fst (import_properties (decoding_to [underpriced_line, untitled_line]) (upload_of ''csv'') start))
     = 400 \<and>
   inserted_batches
     (effects (snd (import_properties (decoding_to [underpriced_line, untitled_line]) (upload_of ''csv'') start)))
     = []"
  using all_rows_invalid_rejected
    [of "upload_of ''csv''" "\<lparr>originalname = ''sample.csv'', buffer = Some ''csv''\<rparr>" "''csv''"
        "decoding_to [underpriced_line, untitled_line]" "[underpriced, untitled]" start]
    underpriced_invalid untitled_invalid
  by (simp add: upload_of_def start_def decoding_to_simps row_valid_def)

text \<open>
  A file of one row with a negative price is answered without a summary, so that there is
  no reported count \<open>successful: 0\<close> or \<open>failed: 1\<close>.
\<close>

theorem all_rows_invalid_counterexample:
  "summary (fst (import_properties (decoding_to [underpriced_line]) (upload_of ''csv'') start)) = None"
  using import_properties_no_valid
    [of "upload_of ''csv''" "\<lparr>originalname = ''sample.csv'', buffer = Some ''csv''\<rparr>" "''csv''"
        "decoding_to [underpriced_line]" "[underpriced]" start]
    underpriced_invalid
  by (simp add: upload_of_def start_def decoding_to_simps row_valid_def rejected_def)

text \<open>
  C4 (as the code has it): a record whose price is absent, is not numeric or is at most
  0 always yields one row error. Its message cites the price when the title passes its
  own rule, whatever the projectId is; when the title fails its rule, the message cites
  the title, since the first failing key ends the validation.
\<close>

theorem price_violation_reported:
  assumes "raw ''price'' = None \<or>
     (\<exists>s. raw ''price'' = Some s \<and> (N s = Unconverted \<or> (\<exists>x. N s = Number x \<and> x \<le> 0)))"
  shows "\<exists>c. onData N raw st =
       st\<lparr>rowIndex := rowIndex st + 1,
          errors := errors st @
            [\<lparr>row = rowIndex st + 1, data = raw,
              error = label (if title_ok raw then ''price'' else ''title'') @ template c\<rparr>]\<rparr>"
proof -
  from assms have bad: "\<not> price_ok N raw"
    by (auto simp: price_ok_def parsed_number_def split: if_splits)
  show ?thesis
  proof (cases "title_ok raw")
    case True
    from validate_price_fails [OF True bad] show ?thesis
      by (auto simp: True details_message_def dest!: onData_rejects [where st = st])
  next
    case False
    from validate_title_fails [OF False, of N] show ?thesis
      by (auto simp: False details_message_def dest!: onData_rejects [where st = st])
  qed
qed

theorem price_violation_reported_witness:
  "\<exists>c. onData plain_integer underpriced empty_acc =
     empty_acc\<lparr>rowIndex := 1,
        errors := [\<lparr>row = 1, data = underpriced, error = label ''price'' @ template c\<rparr>]\<rparr>"
proof -
  have "plain_integer ''-5'' = Number (- 5)"
    by (simp add: plain_integer_def is_digit_def digits_value_def)
  then have "underpriced ''price'' = None \<or>
     (\<exists>s. underpriced ''price'' = Some s \<and>
        (plain_integer s = Unconverted \<or> (\<exists>x. plain_integer s = Number x \<and> x \<le> 0)))"
    by (simp add: underpriced_def)
  from price_violation_reported [of underpriced plain_integer empty_acc, OF this]
    underpriced_invalid
  show ?thesis
    by (simp add: empty_acc_def)
qed

text \<open>
  The row with an empty title and the price -5 is reported with the message of the
  title, which does not cite the price.
\<close>

theorem price_rule_counterexample:
  "error (last (errors (onData plain_integer untitled_underpriced empty_acc))) =
     label ''title'' @ '' is not allowed to be empty''"
  using validate_title_fails [OF untitled_underpriced_invalid, of plain_integer]
  by (auto simp: untitled_underpriced_def trim_def details_message_def
      dest!: onData_rejects [where st = empty_acc])

text \<open>
  C5: the decoder takes the first line of the file as the headers and emits no record
  for it: its records are built from the lines after the first, one for each, in order.
  The counter of the row loop starts from 0 and advances by one for each record, valid
  or not. So the row errors carry exactly the numbers of the invalid data lines, counted
  from 1 without the header line, each with the record of its line, in file order: the
  numbers are strictly increasing, and no number is 0 or refers to the header line.
\<close>

theorem row_numbers:
  assumes "parseLines E b = (ls, End)"
  shows "\<exists>vs es. processCSVStream E b = Inr (vs, es) \<and>
     fst (csv E b) = map (\<lambda>i. writeRow (ls ! 0) (ls ! i)) [1 ..< length ls] \<and>
     map (\<lambda>e. (row e, data e)) es =
       filter (\<lambda>p. \<not> row_valid (toNumber E) (snd p))
         (map (\<lambda>i. (i, writeRow (ls ! 0) (ls ! i))) [1 ..< length ls]) \<and>
     sorted_wrt (<) (map row es) \<and>
     (\<forall>e \<in> set es. 1 \<le> row e \<and> row e < length ls \<and>
        data e = writeRow (ls ! 0) (ls ! row e)) \<and>
     length vs + length es = length ls - 1 \<and>
     rowIndex (fold (onData (toNumber E)) (fst (csv E b))
        \<lparr>results = [], errors = [], rowIndex = 0\<rparr>) = length ls - 1"
proof -
  let ?N = "toNumber E"
  let ?g = "\<lambda>i. writeRow (ls ! 0) (ls ! i)"
  let ?rows = "map ?g [1 ..< length ls]"
  let ?numbered = "map (\<lambda>i. (i, ?g i)) [1 ..< length ls]"
  let ?bad = "filter (\<lambda>p. \<not> row_valid ?N (snd p)) ?numbered"
  let ?es = "map (row_error_at ?N) ?bad"
  let ?vs = "map (validated ?N) (filter (row_valid ?N) ?rows)"
  have dec: "csv E b = (?rows, End)"
    using assms by (rule csv_lines)
  have len: "length ?rows = length ls - 1"
    by simp
  have upt: "[1 ..< Suc (length ?rows)] = [1 ..< length ls]"
    by (cases ls) (simp_all del: upt_Suc)
  have numbered: "zip [1 ..< Suc (length ?rows)] ?rows = ?numbered"
    unfolding upt by (rule zip_numbered)
  have run: "processCSVStream E b = Inr (?vs, ?es)"
    using processCSVStream_end [OF dec] unfolding numbered .
  have pairs: "map (\<lambda>e. (row e, data e)) ?es = ?bad"
    by (simp add: row_error_at_sel comp_def del: upt_Suc)
  have rows_eq: "map row ?es = map fst ?bad"
    by (rule map_row_error_at)
  have "sorted_wrt (<) (map fst (filter (\<lambda>p. \<not> row_valid ?N (snd p))
      (zip [1 ..< Suc (length ?rows)] ?rows)))"
    by (rule numbered_sorted)
  then have sorted: "sorted_wrt (<) (map row ?es)"
    unfolding rows_eq numbered .
  have each: "\<forall>e \<in> set ?es. 1 \<le> row e \<and> row e < length ls \<and> data e = ?g (row e)"
  proof
    fix e
    assume "e \<in> set ?es"
    then obtain i where "i \<in> set [1 ..< length ls]" and "e = row_error_at ?N (i, ?g i)"
      by auto
    then show "1 \<le> row e \<and> row e < length ls \<and> data e = ?g (row e)"
      by (simp add: row_error_at_sel del: upt_Suc)
  qed
  have "length ?vs + length (map (row_error_at ?N)
      (filter (\<lambda>p. \<not> row_valid ?N (snd p)) (zip [1 ..< Suc (length ?rows)] ?rows))) = length ?rows"
    using count_rows [of "row_valid ?N" ?rows] by (simp only: length_map)
  then have "length ?vs + length ?es = length ?rows"
    unfolding numbered .
  then have count: "length ?vs + length ?es = length ls - 1"
    unfolding len .
  have index: "rowIndex (fold (onData ?N) (fst (csv E b))
      \<lparr>results = [], errors = [], rowIndex = 0\<rparr>) = length ls - 1"
    unfolding dec by (simp add: fold_onData del: upt_Suc)
  have rows: "fst (csv E b) = ?rows"
    unfolding dec by simp
  from run rows pairs sorted each count index show ?thesis
    by blast
qed

theorem row_numbers_witness:
  "\<exists>vs es. processCSVStream (decoding_to [underpriced_line, villa_line, untitled_line]) ''csv''
       = Inr (vs, es) \<and>
     map row es = [1, 3] \<and> map data es = [underpriced, untitled] \<and> length vs = 1"
proof -
  let ?ls = "[header_line, underpriced_line, villa_line, untitled_line]"
  have dec: "parseLines (decoding_to [underpriced_line, villa_line, untitled_line]) ''csv'' =
      (?ls, End)"
    by (simp add: decoding_to_def)
  have three: "[1 ..< length ?ls] = [1, 2, 3]"
    by (simp add: upt_rec)
  from row_numbers [OF dec] obtain vs es
    where run: "processCSVStream (decoding_to [underpriced_line, villa_line, untitled_line]) ''csv''
        = Inr (vs, es)"
      and es: "map (\<lambda>e. (row e, data e)) es = [(1, underpriced), (3, untitled)]"
      and count: "length vs + length es = length ?ls - 1"
    unfolding three
    by (auto simp: decoding_to_simps villa_valid untitled_row_invalid underpriced_row_invalid)
  have "map row es = map fst (map (\<lambda>e. (row e, data e)) es)"
    "map data es = map snd (map (\<lambda>e. (row e, data e)) es)"
    by (simp_all add: comp_def)
  then have sel: "map row es = [1, 3]" "map data es = [underpriced, untitled]"
    unfolding es by simp_all
  from sel(1) have "length es = 2"
    by (metis length_map length_Cons list.size(3) numeral_2_eq_2)
  with count have "length vs = 1"
    by simp
  with run sel show ?thesis
    by (intro exI [of _ vs] exI [of _ es] conjI)
qed

text \<open>
  C6 (as the code has it): an invalid record yields exactly one row error, with the one
  message of the first failing key in the order title, price, projectId. A title that is
  empty after trimming yields the message \<^verbatim>\<open>"title" is not allowed to be empty\<close>,
  and an absent title the message \<^verbatim>\<open>"title" is required\<close>, also when other fields
  are invalid.
\<close>

theorem first_violation_reported:
  assumes "\<not> row_valid N raw"
  shows "\<exists>e. joi_validate N propertySchema raw = Inl e \<and>
     path e = (if \<not> title_ok raw then ''title''
               else if \<not> price_ok N raw then ''price'' else ''projectId'') \<and>
     onData N raw st =
       st\<lparr>rowIndex := rowIndex st + 1,
          errors := errors st @
            [\<lparr>row = rowIndex st + 1, data = raw, error = details_message e\<rparr>]\<rparr> \<and>
     (raw ''title'' = None \<longrightarrow> details_message e = label ''title'' @ '' is required'') \<and>
     (\<forall>s. raw ''title'' = Some s \<and> trim s = [] \<longrightarrow>
        details_message e = label ''title'' @ '' is not allowed to be empty'')"
proof -
  consider (title) "\<not> title_ok raw"
    | (price) "title_ok raw" "\<not> price_ok N raw"
    | (projectId) "title_ok raw" "price_ok N raw" "\<not> projectId_ok raw"
    using assms by (auto simp: row_valid_def)
  then show ?thesis
  proof cases
    case title
    from validate_title_fails [OF title, of N] show ?thesis
      by (auto simp: title details_message_def onData_rejects)
  next
    case price
    from validate_price_fails [OF price] show ?thesis
      using price by (auto simp: details_message_def onData_rejects title_ok_def)
  next
    case projectId
    from validate_projectId_fails [OF projectId] show ?thesis
      using projectId by (auto simp: details_message_def onData_rejects title_ok_def)
  qed
qed

theorem first_violation_reported_witness:
  "error (last (errors (onData plain_integer untitled_underpriced
      \<lparr>results = [], errors = [], rowIndex = 7\<rparr>))) =
     label ''title'' @ '' is not allowed to be empty''"
proof -
  have "\<not> row_valid plain_integer untitled_underpriced"
    using untitled_underpriced_invalid by (simp add: row_valid_def)
  from first_violation_reported [OF this, of "\<lparr>results = [], errors = [], rowIndex = 7\<rparr>"]
  show ?thesis
    by (auto simp: untitled_underpriced_def trim_def)
qed

text \<open>
  The row of the specification's scenario, with the title empty, the price 100 and the
  projectId p1, is not reported with the message \<^verbatim>\<open>"title" is required\<close>.
\<close>

theorem title_required_counterexample:
  "error (last (errors (onData plain_integer untitled empty_acc))) =
     label ''title'' @ '' is not allowed to be empty'' \<and>
   error (last (errors (onData plain_integer untitled empty_acc))) \<noteq>
     label ''title'' @ '' is required''"
  using validate_title_fails [OF untitled_invalid, of plain_integer]
  by (auto simp: untitled_def trim_def details_message_def label_def
      dest!: onData_rejects [where st = empty_acc])

text \<open>
  C7: an upload whose buffer has no bytes is answered with status 400 and the error
  \<^verbatim>\<open>Empty CSV file provided\<close>; the response carries no summary, and the handler has
  no effect on the way (nothing is logged, the decoder is not run, nothing is
  inserted).
\<close>

theorem empty_upload_rejected:
  assumes "req_file req = Some f" and "buffer f = Some []"
  shows "fst (import_properties E req w) = rejected 400 ''Empty CSV file provided'' \<and>
         summary (fst (import_properties E req w)) = None \<and>
         effects (snd (import_properties E req w)) = effects w"
  using import_properties_empty [of req f E w] assms
  by (simp add: rejected_def)

theorem empty_upload_rejected_witness:
  "fst (import_properties (decoding_to [villa_line]) (upload_of []) start) =
     rejected 400 ''Empty CSV file provided'' \<and>
   summary (fst (import_properties (decoding_to [villa_line]) (upload_of []) start)) = None \<and>
   effects (snd (import_properties (decoding_to [villa_line]) (upload_of []) start)) = []"
  using empty_upload_rejected
    [of "upload_of []" "\<lparr>originalname = ''sample.csv'', buffer = Some []\<rparr>"
        "decoding_to [villa_line]" start]
  by (simp add: upload_of_def start_def rejected_def)

text \<open>
  C8: two records that agree on title, price and projectId have the same validation
  result, whatever other columns they carry, and a validated record has exactly the keys
  title, price and projectId.
\<close>

theorem unknown_columns_ignored:
  assumes "raw' ''title'' = raw ''title''"
    and "raw' ''price'' = raw ''price''"
    and "raw' ''projectId'' = raw ''projectId''"
  shows "joi_validate N propertySchema raw' = joi_validate N propertySchema raw \<and>
     (\<forall>v. joi_validate N propertySchema raw' = Inr v \<longrightarrow>
        dom v = {''title'', ''price'', ''projectId''})"
proof -
  have "joi_validate N propertySchema raw' = joi_validate N propertySchema raw"
    unfolding validate_unfold assms by (rule refl)
  then show ?thesis
    using validated_dom [of N raw'] by simp
qed

theorem unknown_columns_ignored_witness:
  "joi_validate plain_integer propertySchema with_garden =
     joi_validate plain_integer propertySchema villa \<and>
   dom (validated plain_integer with_garden) = {''title'', ''price'', ''projectId''}"
proof -
  have same: "with_garden ''title'' = villa ''title''" "with_garden ''price'' = villa ''price''"
    "with_garden ''projectId'' = villa ''projectId''"
    by (simp_all add: with_garden_def)
  obtain v where v: "joi_validate plain_integer propertySchema villa = Inr v"
    using validate_cases(1) [OF villa_valid] by blast
  from unknown_columns_ignored [OF same, of plain_integer] v show ?thesis
    by (simp add: validated_def)
qed

text \<open>
  C9: validating the row object at an address of a well-formed store, twice in
  succession, leaves every object that was there before as it was, the row object
  included; both times the verdict is the one that \<open>joi_validate\<close> computes from the
  cells of the record alone, whatever else the store holds: the same error, or a fresh
  object with the same validated record.
\<close>

theorem validation_pure:
  assumes wf: "well_formed s"
    and inp: "objects s a = Some (as_obj raw)"
    and first: "validate_at N propertySchema a s = (r1, s1)"
    and second: "validate_at N propertySchema a s1 = (r2, s2)"
  shows "(\<forall>b. b < next_addr s \<longrightarrow> objects s1 b = objects s b \<and> objects s2 b = objects s b) \<and>
     objects s2 a = Some (as_obj raw) \<and>
     (case joi_validate N propertySchema raw of
        Inl e \<Rightarrow> r1 = Inl e \<and> r2 = Inl e
      | Inr v \<Rightarrow>
          (\<exists>c1 c2. r1 = Inr c1 \<and> r2 = Inr c2 \<and> c1 \<noteq> c2 \<and>
             objects s1 c1 = Some v \<and> objects s2 c1 = Some v \<and> objects s2 c2 = Some v))"
proof -
  let ?verdict = "joi_validate N propertySchema raw"
  have inp': "objects s a = Some (map_option JString \<circ> raw)"
    using inp by (simp add: as_obj_def)
  have old: "a < next_addr s"
    using wf inp by (metis linorder_not_less option.distinct(1) well_formed_def)
  from validate_at_pure [OF wf inp' propertySchema_distinct, of N] first
  have r1: "r1 = (case ?verdict of Inl e \<Rightarrow> Inl e | Inr v \<Rightarrow> Inr (next_addr s))"
    and frame1: "\<forall>b. b \<noteq> next_addr s \<longrightarrow> objects s1 b = objects s b"
    and next1: "next_addr s1 = Suc (next_addr s)"
    and wf1: "well_formed s1"
    and res1: "\<forall>v. ?verdict = Inr v \<longrightarrow> objects s1 (next_addr s) = Some v"
    by auto
  have inp1: "objects s1 a = Some (map_option JString \<circ> raw)"
    using frame1 old inp' by simp
  from validate_at_pure [OF wf1 inp1 propertySchema_distinct, of N] second
  have r2: "r2 = (case ?verdict of Inl e \<Rightarrow> Inl e | Inr v \<Rightarrow> Inr (next_addr s1))"
    and frame2: "\<forall>b. b \<noteq> next_addr s1 \<longrightarrow> objects s2 b = objects s1 b"
    and res2: "\<forall>v. ?verdict = Inr v \<longrightarrow> objects s2 (next_addr s1) = Some v"
    by auto
  have kept: "\<forall>b. b < next_addr s \<longrightarrow> objects s1 b = objects s b \<and> objects s2 b = objects s b"
    using frame1 frame2 next1 by simp
  then have same: "objects s2 a = Some (as_obj raw)"
    using old inp by simp
  have verdicts: "case ?verdict of
        Inl e \<Rightarrow> r1 = Inl e \<and> r2 = Inl e
      | Inr v \<Rightarrow>
          (\<exists>c1 c2. r1 = Inr c1 \<and> r2 = Inr c2 \<and> c1 \<noteq> c2 \<and>
             objects s1 c1 = Some v \<and> objects s2 c1 = Some v \<and> objects s2 c2 = Some v)"
  proof (cases ?verdict)
    case (Inl e)
    then show ?thesis
      by (simp add: r1 r2)
  next
    case (Inr v)
    have "objects s2 (next_addr s) = Some v"
      using frame2 next1 res1 Inr by simp
    with Inr res1 res2 next1 show ?thesis
      by (simp add: r1 r2)
  qed
  from kept same verdicts show ?thesis
    by blast
qed

theorem validation_pure_witness:
  "objects (snd (validate_at plain_integer propertySchema 0
       (snd (validate_at plain_integer propertySchema 0 villa_store)))) 0 = Some (as_obj villa) \<and>
   (\<exists>c1 c2. fst (validate_at plain_integer propertySchema 0 villa_store) = Inr c1 \<and>
      fst (validate_at plain_integer propertySchema 0
        (snd (validate_at plain_integer propertySchema 0 villa_store))) = Inr c2 \<and>
      objects (snd (validate_at plain_integer propertySchema 0
          (snd (validate_at plain_integer propertySchema 0 villa_store)))) c1 =
        Some (validated plain_integer villa) \<and>
      objects (snd (validate_at plain_integer propertySchema 0
          (snd (validate_at plain_integer propertySchema 0 villa_store)))) c2 =
        Some (validated plain_integer villa))"
proof -
  let ?one = "validate_at plain_integer propertySchema 0 villa_store"
  let ?two = "validate_at plain_integer propertySchema 0 (snd ?one)"
  have wf: "well_formed villa_store"
    by (simp add: well_formed_def villa_store_def)
  have inp: "objects villa_store 0 = Some (as_obj villa)"
    by (simp add: villa_store_def)
  obtain v where v: "joi_validate plain_integer propertySchema villa = Inr v"
    using validate_cases(1) [OF villa_valid] by blast
  from validation_pure [where N = plain_integer,
      OF wf inp prod.collapse [symmetric] prod.collapse [symmetric]] v
  show ?thesis
    by (auto simp: validated_def)
qed

text \<open>
  C10: a response of status 200 has \<open>success = True\<close>, also when rows failed
  validation; its summary counts as successful the rows that passed validation, since
  the mock returns one stored record for each record it is given; and
  \<open>validationErrors\<close> is present exactly when some row failed.
\<close>

theorem ok_response:
  assumes run: "import_properties E req w = (res, w')"
    and ok: "status res = 200"
  shows "success res \<and>
     (\<exists>f b rows s. req_file req = Some f \<and> buffer f = Some b \<and> csv E b = (rows, End) \<and>
        summary res = Some s \<and>
        successful s = length (filter (row_valid (toNumber E)) rows) \<and>
        failed s = length (filter (\<lambda>d. \<not> row_valid (toNumber E) d) rows) \<and>
        (validationErrors res \<noteq> None \<longleftrightarrow> (\<exists>d \<in> set rows. \<not> row_valid (toNumber E) d)))"
proof -
  let ?N = "toNumber E"
  from import_properties_outcome [OF run] ok
  obtain f b rows where req: "req_file req = Some f" "buffer f = Some b" "csv E b = (rows, End)"
    and rep: "insert_and_report E (now E (ticks w))
          (map (validated ?N) (filter (row_valid ?N) rows))
          (map (row_error_at ?N)
             (filter (\<lambda>p. \<not> row_valid ?N (snd p)) (zip [1 ..< Suc (length rows)] rows)))
          (w\<lparr>ticks := ticks w + 1,
             effects := effects w @ [Log info ''Starting CSV import'', Decode b]\<rparr>) = (res, w')"
    by auto
  note shape = insert_and_report_shape [OF rep]
  from shape have "success res"
    by simp
  moreover from shape obtain s where s: "summary res = Some s"
    "successful s = length (filter (row_valid ?N) rows)"
    "failed s = length (filter (\<lambda>p. \<not> row_valid ?N (snd p)) (zip [1 ..< Suc (length rows)] rows))"
    by auto
  moreover have "failed s = length (filter (\<lambda>d. \<not> row_valid ?N d) rows)"
    using filter_zip_length [of "row_valid ?N" 1 rows] s(3) by simp
  moreover have "validationErrors res \<noteq> None \<longleftrightarrow> (\<exists>d \<in> set rows. \<not> row_valid ?N d)"
    using shape some_invalid_iff [of "row_valid ?N" rows] by auto
  ultimately show ?thesis
    using req by auto
qed

theorem ok_response_witness:
  "status (fst (import_properties (decoding_to [villa_line, underpriced_line]) (upload_of ''csv'') start)) = 200 \<and>
   success (fst (import_properties (decoding_to [villa_line, underpriced_line]) (upload_of ''csv'') start)) \<and>
   validationErrors (fst (import_properties (decoding_to [villa_line, underpriced_line]) (upload_of ''csv'') start))
     \<noteq> None"
proof -
  let ?R = "import_properties (decoding_to [villa_line, underpriced_line]) (upload_of ''csv'') start"
  have run: "?R = (fst ?R, snd ?R)"
    by simp
  have ok: "status (fst ?R) = 200"
    using insert_and_report_shape [OF prod.collapse [symmetric]] unfolding mixed_run by blast
  from ok_response [OF run ok] underpriced_invalid ok show ?thesis
    by (auto simp: decoding_to_simps upload_of_def row_valid_def)
qed

end
